theory Spec2Isabelle
  imports Main "HOL-Library.Sublist"
begin

section \<open>Bytes, strings and the connection as a byte stream\<close>

text \<open>
  A Go \<^verbatim>\<open>string\<close> is a sequence of bytes; it is modelled as \<^typ>\<open>string\<close>, a list of
  8-bit characters, so \<^const>\<open>length\<close> is Go's \<^verbatim>\<open>len\<close>.
\<close>

abbreviation HT :: char where "HT \<equiv> CHR 0x09"
abbreviation LF :: char where "LF \<equiv> CHR 0x0A"
abbreviation VT :: char where "VT \<equiv> CHR 0x0B"
abbreviation FF :: char where "FF \<equiv> CHR 0x0C"
abbreviation CR :: char where "CR \<equiv> CHR 0x0D"
abbreviation SP :: char where "SP \<equiv> CHR 0x20"
abbreviation CRLF :: string where "CRLF \<equiv> [CR, LF]"

text \<open>
  The errors of package \<^verbatim>\<open>io\<close> that the parser can meet. \<open>ConnError\<close> stands for any
  error of the connection other than a clean end of stream (a reset, a timeout).
\<close>

datatype io_error = EOF | ErrUnexpectedEOF | ConnError

text \<open>
  \<^verbatim>\<open>bufio.NewReader(conn)\<close>: the bytes the peer sends before the read side of the
  connection ends, and the error with which it ends. Reading never blocks in the model:
  a stream is a complete run of the connection.
\<close>

datatype reader = Reader (pending: string) (ending: io_error)

text \<open>\<^verbatim>\<open>strings.IndexByte\<close>: the index of the first occurrence (Go returns -1 for none).\<close>

fun IndexByte :: "string \<Rightarrow> char \<Rightarrow> nat option" where
  "IndexByte [] c = None"
| "IndexByte (x # xs) c = (if x = c then Some 0 else map_option Suc (IndexByte xs c))"

text \<open>
  \<^verbatim>\<open>(*bufio.Reader).ReadString(delim)\<close>: the bytes up to and including the first
  delimiter and no error; when the stream ends before a delimiter, the bytes read so
  far together with the error that ended the stream.
\<close>

definition ReadString :: "reader \<Rightarrow> char \<Rightarrow> (string \<times> io_error option) \<times> reader" where
  "ReadString r delim =
     (case IndexByte (pending r) delim of
        Some i \<Rightarrow> ((take (Suc i) (pending r), None), Reader (drop (Suc i) (pending r)) (ending r))
      | None \<Rightarrow> ((pending r, Some (ending r)), Reader [] (ending r)))"

text \<open>
  \<^verbatim>\<open>io.ReadFull(reader, buf)\<close> with \<^verbatim>\<open>len(buf) = n\<close>: exactly \<open>n\<close> bytes, or an error
  when the stream ends first: \<^verbatim>\<open>io.EOF\<close> when a clean end came before any byte,
  \<^verbatim>\<open>io.ErrUnexpectedEOF\<close> when it came after some, the connection's own error
  otherwise. With \<open>n = 0\<close> nothing is read and nothing fails.
\<close>

definition ReadFull :: "reader \<Rightarrow> nat \<Rightarrow> io_error + (string \<times> reader)" where
  "ReadFull r n =
     (if n \<le> length (pending r)
      then Inr (take n (pending r), Reader (drop n (pending r)) (ending r))
      else Inl (if ending r = EOF \<and> pending r \<noteq> [] then ErrUnexpectedEOF else ending r))"

section \<open>The functions of package strings that the parser calls\<close>

text \<open>\<^verbatim>\<open>strings.TrimSuffix(s, suffix)\<close>.\<close>

definition TrimSuffix :: "string \<Rightarrow> string \<Rightarrow> string" where
  "TrimSuffix s suf = (if suffix suf s then take (length s - length suf) s else s)"

text \<open>
  \<^verbatim>\<open>strings.TrimSpace(s)\<close> removes the leading and the trailing white space, as
  \<^verbatim>\<open>unicode.IsSpace\<close> defines it on the runes of the UTF-8 string: the six ASCII
  characters of \<open>asciiSpace\<close>, and the runes U+0085, U+00A0, U+1680, U+2000 to U+200A,
  U+2028, U+2029, U+202F, U+205F and U+3000, listed in \<open>unicodeSpaces\<close> by their UTF-8
  encodings. A byte that starts no valid encoding of such a rune is not white space.
\<close>

definition asciiSpace :: "char \<Rightarrow> bool" where
  "asciiSpace c = (c = HT \<or> c = LF \<or> c = VT \<or> c = FF \<or> c = CR \<or> c = SP)"

definition unicodeSpaces :: "string list" where
  "unicodeSpaces =
     [[CHR 0xC2, CHR 0x85], [CHR 0xC2, CHR 0xA0], [CHR 0xE1, CHR 0x9A, CHR 0x80],
      [CHR 0xE2, CHR 0x80, CHR 0x80], [CHR 0xE2, CHR 0x80, CHR 0x81],
      [CHR 0xE2, CHR 0x80, CHR 0x82], [CHR 0xE2, CHR 0x80, CHR 0x83],
      [CHR 0xE2, CHR 0x80, CHR 0x84], [CHR 0xE2, CHR 0x80, CHR 0x85],
      [CHR 0xE2, CHR 0x80, CHR 0x86], [CHR 0xE2, CHR 0x80, CHR 0x87],
      [CHR 0xE2, CHR 0x80, CHR 0x88], [CHR 0xE2, CHR 0x80, CHR 0x89],
      [CHR 0xE2, CHR 0x80, CHR 0x8A], [CHR 0xE2, CHR 0x80, CHR 0xA8],
      [CHR 0xE2, CHR 0x80, CHR 0xA9], [CHR 0xE2, CHR 0x80, CHR 0xAF],
      [CHR 0xE2, CHR 0x81, CHR 0x9F], [CHR 0xE3, CHR 0x80, CHR 0x80]]"

text \<open>The width in bytes of the white-space rune a string starts with; 0 when it starts with none.\<close>

definition leadingSpace :: "string \<Rightarrow> nat" where
  "leadingSpace s =
     (case s of
        [] \<Rightarrow> 0
      | c # _ \<Rightarrow>
          if asciiSpace c then 1
          else (case find (\<lambda>e. prefix e s) unicodeSpaces of Some e \<Rightarrow> length e | None \<Rightarrow> 0))"

text \<open>The same for the rune a string ends with.\<close>

definition trailingSpace :: "string \<Rightarrow> nat" where
  "trailingSpace s =
     (case rev s of
        [] \<Rightarrow> 0
      | c # _ \<Rightarrow>
          if asciiSpace c then 1
          else (case find (\<lambda>e. suffix e s) unicodeSpaces of Some e \<Rightarrow> length e | None \<Rightarrow> 0))"

function trimLeft :: "string \<Rightarrow> string" where
  "trimLeft s = (if leadingSpace s = 0 then s else trimLeft (drop (leadingSpace s) s))"
  by pat_completeness auto
termination
proof (relation "measure length")
  show "wf (measure length)" by simp
next
  fix s :: string
  assume "leadingSpace s \<noteq> 0"
  moreover have "leadingSpace s \<le> length s"
  proof (cases "find (\<lambda>e. prefix e s) unicodeSpaces")
    case None
    then show ?thesis by (cases s) (simp_all add: leadingSpace_def)
  next
    case (Some e)
    then have "prefix e s" by (auto simp: find_Some_iff)
    then have "length e \<le> length s" by (rule prefix_length_le)
    with Some show ?thesis by (cases s) (simp_all add: leadingSpace_def)
  qed
  ultimately show "(drop (leadingSpace s) s, s) \<in> measure length" by simp
qed

function trimRight :: "string \<Rightarrow> string" where
  "trimRight s = (if trailingSpace s = 0 then s else trimRight (take (length s - trailingSpace s) s))"
  by pat_completeness auto
termination
proof (relation "measure length")
  show "wf (measure length)" by simp
next
  fix s :: string
  assume "trailingSpace s \<noteq> 0"
  moreover have "trailingSpace s \<le> length s"
  proof (cases "find (\<lambda>e. suffix e s) unicodeSpaces")
    case None
    then show ?thesis by (cases "rev s") (simp_all add: trailingSpace_def Suc_le_eq)
  next
    case (Some e)
    then have "suffix e s" by (auto simp: find_Some_iff)
    then have "length e \<le> length s" by (rule suffix_length_le)
    with Some show ?thesis by (cases "rev s") (simp_all add: trailingSpace_def Suc_le_eq)
  qed
  ultimately show "(take (length s - trailingSpace s) s, s) \<in> measure length" by simp
qed

declare trimLeft.simps [simp del] trimRight.simps [simp del]

definition TrimSpace :: "string \<Rightarrow> string" where
  "TrimSpace s = trimRight (trimLeft s)"

text \<open>
  \<^verbatim>\<open>strings.Split(s, sep)\<close> and \<^verbatim>\<open>strings.SplitN(s, sep, n)\<close>. The parser calls them
  with the one-byte separators \<^verbatim>\<open>" "\<close> and \<^verbatim>\<open>":"\<close>, so the separator is a byte here.
  \<open>genSplit s sep k\<close> is the loop of the library's \<^verbatim>\<open>genSplit\<close> with \<open>k\<close> cuts left:
  it cuts at the first separator while cuts are left and one is found, and the rest of
  the string is the last element. The result is never empty.
\<close>

fun genSplit :: "string \<Rightarrow> char \<Rightarrow> nat \<Rightarrow> string list" where
  "genSplit s sep 0 = [s]"
| "genSplit s sep (Suc k) =
     (case IndexByte s sep of
        None \<Rightarrow> [s]
      | Some m \<Rightarrow> take m s # genSplit (drop (Suc m) s) sep k)"

text \<open>\<^verbatim>\<open>strings.Count(s, sep)\<close> for a one-byte separator.\<close>

definition Count :: "string \<Rightarrow> char \<Rightarrow> nat" where
  "Count s sep = count_list s sep"

text \<open>\<^verbatim>\<open>Split\<close> is \<^verbatim>\<open>genSplit\<close> with \<^verbatim>\<open>n = -1\<close>, which it replaces by \<^verbatim>\<open>Count(s, sep) + 1\<close>.\<close>

definition Split :: "string \<Rightarrow> char \<Rightarrow> string list" where
  "Split s sep = genSplit s sep (Count s sep)"

text \<open>
  \<^verbatim>\<open>SplitN\<close>: no element for \<open>n = 0\<close>, all of them for \<open>n < 0\<close>, at most \<open>n\<close> otherwise
  (and at most \<^verbatim>\<open>len(s) + 1\<close>), the last one holding the unsplit rest.
\<close>

definition SplitN :: "string \<Rightarrow> char \<Rightarrow> int \<Rightarrow> string list" where
  "SplitN s sep n =
     (if n = 0 then []
      else if n < 0 then Split s sep
      else genSplit s sep (min (nat n) (length s + 1) - 1))"

section \<open>strconv.Atoi\<close>

text \<open>
  \<^verbatim>\<open>strconv.Atoi\<close> on a platform whose \<^verbatim>\<open>int\<close> has 64 bits: an optional sign, then
  decimal digits only, read left to right as \<^verbatim>\<open>ParseUint\<close> does: a byte that is no digit
  is a syntax error, a value beyond 64 unsigned bits a range error (found before the
  bytes after it are looked at), and the signed value must fit \<^verbatim>\<open>int\<close>.
\<close>

datatype num_error = ErrSyntax | ErrRange

definition intSize :: nat where
  "intSize = 64"

definition maxUint64 :: nat where
  "maxUint64 = 2 ^ 64 - 1"

definition isDigit :: "char \<Rightarrow> bool" where
  "isDigit c = (48 \<le> (of_char c :: nat) \<and> (of_char c :: nat) \<le> 57)"

definition digitVal :: "char \<Rightarrow> nat" where
  "digitVal c = of_char c - 48"

fun parseDigits :: "nat \<Rightarrow> string \<Rightarrow> num_error + nat" where
  "parseDigits n [] = Inr n"
| "parseDigits n (c # cs) =
     (if isDigit c
      then (if maxUint64 < n * 10 + digitVal c then Inl ErrRange
            else parseDigits (n * 10 + digitVal c) cs)
      else Inl ErrSyntax)"

definition Atoi :: "string \<Rightarrow> num_error + int" where
  "Atoi s =
     (case s of
        [] \<Rightarrow> Inl ErrSyntax
      | c # cs \<Rightarrow>
          (let neg = (c = CHR ''-'');
               s' = (if c = CHR ''+'' \<or> c = CHR ''-'' then cs else s)
           in if s' = [] then Inl ErrSyntax
              else (case parseDigits 0 s' of
                      Inl ErrSyntax \<Rightarrow> Inl ErrSyntax
                    | r \<Rightarrow>
                        (let un = (case r of Inr n \<Rightarrow> n | Inl _ \<Rightarrow> maxUint64);
                             cutoff = 2 ^ (intSize - 1)
                         in if neg then (if cutoff < un then Inl ErrRange else Inr (- int un))
                            else (if cutoff \<le> un then Inl ErrRange else Inr (int un))))))"

section \<open>The request parser\<close>

text \<open>The struct \<^verbatim>\<open>Req\<close>; the Go map of headers is a partial function.\<close>

record Req =
  Method :: string
  URI :: string
  Headers :: "string \<rightharpoonup> string"
  Body :: string

text \<open>
  The four places where \<^verbatim>\<open>NewRequest\<close> returns an error, under the names the
  specification gives them:
  \<^item> \<open>MalformedRequestLine\<close>: the first \<^verbatim>\<open>ReadString\<close> failed (the error is returned as it is);
  \<^item> \<open>HeaderReadError\<close>: \<^verbatim>\<open>"error when reading request header: %v"\<close>;
  \<^item> \<open>InvalidContentLength\<close>: \<^verbatim>\<open>"error invalid Content-Length header %v"\<close>;
  \<^item> \<open>TruncatedBody\<close>: \<^verbatim>\<open>"error invalid body %v"\<close>.
\<close>

datatype parse_error =
    MalformedRequestLine io_error
  | HeaderReadError io_error
  | InvalidContentLength num_error
  | TruncatedBody io_error

text \<open>
  The run-time panics of \<^verbatim>\<open>NewRequest\<close>: an index beyond the length of a slice
  (\<open>IndexOutOfRange i n\<close>: index \<open>i\<close>, length \<open>n\<close>), and \<^verbatim>\<open>make([]byte, length)\<close> with a
  length that the runtime's \<^verbatim>\<open>makeslice\<close> refuses, because it is negative or because
  it is beyond \<^verbatim>\<open>maxAlloc\<close> (both with the message \<^verbatim>\<open>makeslice: len out of range\<close>).
\<close>

datatype panic = IndexOutOfRange nat nat | MakesliceLenOutOfRange

datatype failure = Panic panic | Error parse_error

text \<open>
  The runtime's bound on the size of one allocation, \<^verbatim>\<open>maxAlloc\<close>: \<open>2 ^ 48\<close> bytes on
  64-bit Linux (48 bits of heap address). No slice and no string is longer. Running
  out of memory below that bound is not modelled.
\<close>

definition maxAlloc :: int where
  "maxAlloc = 2 ^ 48"

text \<open>
  The header loop of \<^verbatim>\<open>NewRequest\<close> (lines 90 to 110), from the reader and the headers
  stored so far to the headers and the reader when the loop is left.
\<close>

function readHeaders ::
  "reader \<Rightarrow> (string \<rightharpoonup> string) \<Rightarrow> parse_error + ((string \<rightharpoonup> string) \<times> reader)" where
  "readHeaders reader headers =
     (case ReadString reader LF of
        ((headerLine, Some err), reader') \<Rightarrow>
          (if err = EOF then Inr (headers, reader') else Inl (HeaderReadError err))
      | ((headerLine, None), reader') \<Rightarrow>
          (if TrimSuffix headerLine CRLF = [] then Inr (headers, reader')
           else (let headerSection = SplitN (TrimSuffix headerLine CRLF) (CHR '':'') 2
                 in readHeaders reader'
                      (if length headerSection = 2
                       then headers(TrimSpace (headerSection ! 0) \<mapsto> TrimSpace (headerSection ! 1))
                       else headers))))"
  by pat_completeness auto
termination
proof (relation "measure (\<lambda>(reader, headers). length (pending reader))", goal_cases)
  case 1
  show ?case by simp
next
  case (2 reader headers x1 reader' headerLine x2 headerSection)
  have "IndexByte s LF = Some i \<Longrightarrow> i < length s" for s i
    by (induction s arbitrary: i) (auto split: if_splits)
  with 2(1-3) have "length (pending reader') < length (pending reader)"
    by (fastforce simp: ReadString_def split: option.splits)
  then show ?case by simp
qed

declare readHeaders.simps [simp del]

text \<open>\<^verbatim>\<open>NewRequest\<close> (lines 71 to 136).\<close>

definition NewRequest :: "reader \<Rightarrow> failure + Req" where
  "NewRequest conn =
     (case ReadString conn LF of
        ((line, Some err), reader) \<Rightarrow> Inl (Error (MalformedRequestLine err))
      | ((line, None), reader) \<Rightarrow>
          (let sliceOfLine = Split (TrimSpace (TrimSuffix line CRLF)) SP
           in if length sliceOfLine \<le> 0 then Inl (Panic (IndexOutOfRange 0 (length sliceOfLine)))
              else if length sliceOfLine \<le> 1 then Inl (Panic (IndexOutOfRange 1 (length sliceOfLine)))
              else (case readHeaders reader Map.empty of
                      Inl e \<Rightarrow> Inl (Error e)
                    | Inr (headers, reader') \<Rightarrow>
                        (case headers ''Content-Length'' of
                           None \<Rightarrow>
                             Inr \<lparr>Method = sliceOfLine ! 0, URI = sliceOfLine ! 1,
                                  Headers = headers, Body = []\<rparr>
                         | Some contentLength \<Rightarrow>
                             (case Atoi contentLength of
                                Inl e \<Rightarrow> Inl (Error (InvalidContentLength e))
                              | Inr len \<Rightarrow>
                                  if len < 0 \<or> maxAlloc < len
                                  then Inl (Panic MakesliceLenOutOfRange)
                                  else (case ReadFull reader' (nat len) of
                                          Inl e \<Rightarrow> Inl (Error (TruncatedBody e))
                                        | Inr (body, reader'') \<Rightarrow>
                                            Inr \<lparr>Method = sliceOfLine ! 0, URI = sliceOfLine ! 1,
                                                 Headers = headers, Body = body\<rparr>))))))"

section \<open>The response serializer\<close>

text \<open>
  The verb \<^verbatim>\<open>%d\<close> of \<^verbatim>\<open>fmt.Sprintf\<close> on an \<^verbatim>\<open>int\<close>: the decimal digits, most
  significant first and without leading zeros, after a minus sign for a negative number.
\<close>

definition digitChar :: "nat \<Rightarrow> char" where
  "digitChar d = ''0123456789'' ! d"

fun natDigits :: "nat \<Rightarrow> string" where
  "natDigits n = (if n < 10 then [digitChar n] else natDigits (n div 10) @ [digitChar (n mod 10)])"

declare natDigits.simps [simp del]

definition formatInt :: "int \<Rightarrow> string" where
  "formatInt i = (if i < 0 then CHR ''-'' # natDigits (nat (- i)) else natDigits (nat i))"

text \<open>
  \<^verbatim>\<open>http.StatusText\<close>: the reason phrases of package \<^verbatim>\<open>net/http\<close>, and the empty
  string for a code that has none.
\<close>

definition statusText :: "(int \<times> string) list" where
  "statusText =
     [(100, ''Continue''), (101, ''Switching Protocols''), (102, ''Processing''),
      (103, ''Early Hints''),
      (200, ''OK''), (201, ''Created''), (202, ''Accepted''),
      (203, ''Non-Authoritative Information''), (204, ''No Content''),
      (205, ''Reset Content''), (206, ''Partial Content''), (207, ''Multi-Status''),
      (208, ''Already Reported''), (226, ''IM Used''),
      (300, ''Multiple Choices''), (301, ''Moved Permanently''), (302, ''Found''),
      (303, ''See Other''), (304, ''Not Modified''), (305, ''Use Proxy''),
      (307, ''Temporary Redirect''), (308, ''Permanent Redirect''),
      (400, ''Bad Request''), (401, ''Unauthorized''), (402, ''Payment Required''),
      (403, ''Forbidden''), (404, ''Not Found''), (405, ''Method Not Allowed''),
      (406, ''Not Acceptable''), (407, ''Proxy Authentication Required''),
      (408, ''Request Timeout''), (409, ''Conflict''), (410, ''Gone''),
      (411, ''Length Required''), (412, ''Precondition Failed''),
      (413, ''Request Entity Too Large''), (414, ''Request URI Too Long''),
      (415, ''Unsupported Media Type''), (416, ''Requested Range Not Satisfiable''),
      (417, ''Expectation Failed''), (418, ''I'' @ [CHR 0x27] @ ''m a teapot''),
      (421, ''Misdirected Request''), (422, ''Unprocessable Entity''), (423, ''Locked''),
      (424, ''Failed Dependency''), (425, ''Too Early''), (426, ''Upgrade Required''),
      (428, ''Precondition Required''), (429, ''Too Many Requests''),
      (431, ''Request Header Fields Too Large''), (451, ''Unavailable For Legal Reasons''),
      (500, ''Internal Server Error''), (501, ''Not Implemented''), (502, ''Bad Gateway''),
      (503, ''Service Unavailable''), (504, ''Gateway Timeout''),
      (505, ''HTTP Version Not Supported''), (506, ''Variant Also Negotiates''),
      (507, ''Insufficient Storage''), (508, ''Loop Detected''), (510, ''Not Extended''),
      (511, ''Network Authentication Required'')]"

definition StatusText :: "int \<Rightarrow> string" where
  "StatusText code = (case map_of statusText code of Some phrase \<Rightarrow> phrase | None \<Rightarrow> [])"

text \<open>\<^verbatim>\<open>NewResponse\<close> (lines 149 to 155).\<close>

definition NewResponse :: "int \<Rightarrow> string \<Rightarrow> string \<Rightarrow> string" where
  "NewResponse status data contentType =
     (let responseStatus = ''HTTP/1.1 '' @ formatInt status @ '' '' @ StatusText status @ CRLF;
          responseContentType = ''Content-Type: '' @ contentType @ CRLF;
          responseContentLength = ''Content-Length: '' @ formatInt (int (length data)) @ CRLF
      in responseStatus @ responseContentType @ responseContentLength @ CRLF @ data)"

section \<open>Handling one connection\<close>

text \<open>
  What a handling unit does to the world outside it: the bytes written to the
  connection, whether the connection has been closed, and the lines given to the log.
\<close>

datatype log_entry =
    LogParseError parse_error
  | LogReadFile string
  | LogTemplateParse
  | LogStore "string \<rightharpoonup> string"
  | LogTemplateExecute
  | LogBody string
  | LogUnmarshal
  | LogInput string

record world =
  written :: string
  closed :: bool
  logged :: "log_entry list"

text \<open>
  \<^verbatim>\<open>Conn.Write\<close> (its error, on a closed connection, is ignored by every caller),
  \<^verbatim>\<open>Conn.Close\<close> and \<^verbatim>\<open>log.Println\<close>.
\<close>

definition Write :: "string \<Rightarrow> world \<Rightarrow> world" where
  "Write bs w = (if closed w then w else w\<lparr>written := written w @ bs\<rparr>)"

definition Close :: "world \<Rightarrow> world" where
  "Close w = w\<lparr>closed := True\<rparr>"

definition Println :: "log_entry \<Rightarrow> world \<Rightarrow> world" where
  "Println x w = w\<lparr>logged := logged w @ [x]\<rparr>"

text \<open>
  The collaborators of the page handlers, outside the repository: \<^verbatim>\<open>os.ReadFile\<close>
  (\<open>None\<close> for an error), parsing and executing a \<^verbatim>\<open>text/template\<close> (whether the text
  parses; the output of executing it on the store, \<open>None\<close> for an error), and
  \<^verbatim>\<open>json.Unmarshal\<close> into the struct \<^verbatim>\<open>Data\<close> (its field \<^verbatim>\<open>Input\<close>, \<open>None\<close> for an error).
\<close>

record env =
  readFile :: "string \<Rightarrow> string option"
  templateParses :: "string \<Rightarrow> bool"
  templateExecute :: "string \<Rightarrow> (string \<rightharpoonup> string) \<Rightarrow> string option"
  unmarshal :: "string \<Rightarrow> string option"

text \<open>
  The struct \<^verbatim>\<open>Service\<close>: the request of its router and the store. The connection of
  the router is the \<^typ>\<open>world\<close> that every handler takes and returns.
\<close>

record Service =
  Request :: Req
  Store :: "string \<rightharpoonup> string"

definition NewService :: "Req \<Rightarrow> Service" where
  "NewService req = \<lparr>Request = req, Store = Map.empty\<rparr>"

text \<open>\<^verbatim>\<open>handleIndexPage\<close> (lines 192 to 221); the deferred \<^verbatim>\<open>Close\<close> runs at its end.\<close>

definition handleIndexPage :: "env \<Rightarrow> Service \<Rightarrow> world \<Rightarrow> Service \<times> world" where
  "handleIndexPage env s w =
     (let (buffer, w1) =
            (case readFile env ''static/index.html'' of
               None \<Rightarrow> ([], Println (LogReadFile ''static/index.html'') w)
             | Some b \<Rightarrow> (b, w))
      in if templateParses env buffer
         then (let w2 = Println (LogStore (Store s)) w1
               in case templateExecute env buffer (Store s) of
                    None \<Rightarrow> (s, Println LogTemplateExecute w2)
                  | Some out \<Rightarrow> (s, Close (Write (NewResponse 200 out ''text/html'') w2)))
         else (s, Println LogTemplateParse w1))"

text \<open>\<^verbatim>\<open>handleAboutPage\<close> (lines 223 to 232).\<close>

definition handleAboutPage :: "env \<Rightarrow> Service \<Rightarrow> world \<Rightarrow> Service \<times> world" where
  "handleAboutPage env s w =
     (let (buffer, w1) =
            (case readFile env ''static/about.html'' of
               None \<Rightarrow> ([], Println (LogReadFile ''static/about.html'') w)
             | Some b \<Rightarrow> (b, w))
      in (s, Close (Write (NewResponse 200 buffer ''text/html'') w1)))"

text \<open>\<^verbatim>\<open>handleInputData\<close> (lines 238 to 255).\<close>

definition handleInputData :: "env \<Rightarrow> Service \<Rightarrow> world \<Rightarrow> Service \<times> world" where
  "handleInputData env s w =
     (let w1 = Println (LogBody (Body (Request s))) w
      in case unmarshal env (Body (Request s)) of
           None \<Rightarrow> (s, Println LogUnmarshal w1)
         | Some input \<Rightarrow>
             (s\<lparr>Store := (Store s)(''data'' \<mapsto> input)\<rparr>,
              Close (Write (NewResponse 200 ''success'' ''application/json'')
                (Println (LogInput input) w1))))"

text \<open>
  \<^verbatim>\<open>Router.Mux\<close> (lines 164 to 181): the three tests in the order of the source, none
  of them with an else branch.
\<close>

definition Mux :: "env \<Rightarrow> Req \<Rightarrow> world \<Rightarrow> world" where
  "Mux env req w =
     (let s = NewService req;
          (s1, w1) =
            (if Method req = ''GET''
             then (let (sa, wa) = (if URI req = ''/'' then handleIndexPage env s w else (s, w))
                   in if URI req = ''/about'' then handleAboutPage env sa wa else (sa, wa))
             else (s, w));
          (s2, w2) =
            (if Method req = ''POST''
             then (if URI req = ''/'' then handleInputData env s1 w1 else (s1, w1))
             else (s1, w1))
      in w2)"

text \<open>
  \<^verbatim>\<open>handleAccept\<close> (lines 60 to 69). A panic of the parser is not recovered: it ends
  the process, and is the result \<open>Inl\<close>.
\<close>

definition handleAccept :: "env \<Rightarrow> reader \<Rightarrow> world \<Rightarrow> panic + world" where
  "handleAccept env conn w =
     (case NewRequest conn of
        Inl (Panic p) \<Rightarrow> Inl p
      | Inl (Error err) \<Rightarrow> Inr (Println (LogParseError err) w)
      | Inr req \<Rightarrow> Inr (Mux env req w))"

section \<open>The request format and the header rules, in the words of the specification\<close>

text \<open>
  Visible ASCII (\<open>0x21\<close> to \<open>0x7E\<close>), of which a method and a request target are made;
  a header name is a non-empty run of visible characters other than the colon; a header
  value is made of visible characters, spaces and tabs and neither starts nor ends
  with a space or a tab.
\<close>

definition visible :: "char \<Rightarrow> bool" where
  "visible c = (33 \<le> (of_char c :: nat) \<and> (of_char c :: nat) \<le> 126)"

definition validToken :: "string \<Rightarrow> bool" where
  "validToken s = (s \<noteq> [] \<and> list_all visible s)"

definition validHeaderName :: "string \<Rightarrow> bool" where
  "validHeaderName n = (n \<noteq> [] \<and> list_all (\<lambda>c. visible c \<and> c \<noteq> CHR '':'') n)"

definition validHeaderValue :: "string \<Rightarrow> bool" where
  "validHeaderValue v =
     (list_all (\<lambda>c. visible c \<or> c = SP \<or> c = HT) v \<and>
      (v = [] \<or> visible (hd v) \<and> visible (last v)))"

text \<open>The bytes of a request: request line, header lines, empty line, body.\<close>

definition requestLine :: "string \<Rightarrow> string \<Rightarrow> string" where
  "requestLine m u = m @ '' '' @ u @ '' HTTP/1.1'' @ CRLF"

definition headerLine :: "string \<times> string \<Rightarrow> string" where
  "headerLine h = fst h @ '': '' @ snd h @ CRLF"

definition requestBytes :: "string \<Rightarrow> string \<Rightarrow> (string \<times> string) list \<Rightarrow> string \<Rightarrow> string" where
  "requestBytes m u hs body = requestLine m u @ concat (map headerLine hs) @ CRLF @ body"

text \<open>
  A body of exactly the number of bytes the headers declare: the value of the last
  \<^verbatim>\<open>Content-Length\<close> header reads, as \<^verbatim>\<open>strconv.Atoi\<close> reads it, as the length of the
  body; with no such header there is no body.
\<close>

definition bodyAsDeclared :: "(string \<times> string) list \<Rightarrow> string \<Rightarrow> bool" where
  "bodyAsDeclared hs body =
     (case map_of (rev hs) ''Content-Length'' of
        None \<Rightarrow> body = []
      | Some v \<Rightarrow> Atoi v = Inr (int (length body)))"

text \<open>
  A complete line of the stream: it ends with its only line feed. The header rules of
  the specification on the text of one line: split at the first colon only, name and
  value trimmed of the white space around them, a line without a colon skipped.
\<close>

definition isLine :: "string \<Rightarrow> bool" where
  "isLine l = (l \<noteq> [] \<and> last l = LF \<and> LF \<notin> set (butlast l))"

definition specHeaderFields :: "string \<Rightarrow> (string \<times> string) option" where
  "specHeaderFields l =
     (if CHR '':'' \<in> set l
      then Some (TrimSpace (takeWhile (\<lambda>c. c \<noteq> CHR '':'') l),
                 TrimSpace (tl (dropWhile (\<lambda>c. c \<noteq> CHR '':'') l)))
      else None)"

definition specStoreHeader :: "string \<Rightarrow> (string \<rightharpoonup> string) \<Rightarrow> (string \<rightharpoonup> string)" where
  "specStoreHeader l headers =
     (case specHeaderFields (TrimSuffix l CRLF) of
        None \<Rightarrow> headers
      | Some (name, val) \<Rightarrow> headers(name \<mapsto> val))"

section \<open>Facts about the library functions\<close>

lemma IndexByte_None_iff: "IndexByte s c = None \<longleftrightarrow> c \<notin> set s"
  by (induction s) auto

lemma IndexByte_first: "c \<notin> set a \<Longrightarrow> IndexByte (a @ c # b) c = Some (length a)"
  by (induction a) auto

lemma ReadString_line:
  "d \<notin> set a \<Longrightarrow> ReadString (Reader (a @ d # b) e) d = ((a @ [d], None), Reader b e)"
  by (simp add: ReadString_def IndexByte_first)

lemma ReadString_end:
  "d \<notin> set s \<Longrightarrow> ReadString (Reader s e) d = ((s, Some e), Reader [] e)"
  using IndexByte_None_iff [of s d] by (simp add: ReadString_def)

lemma TrimSuffix_append: "TrimSuffix (a @ suf) suf = a"
  by (simp add: TrimSuffix_def suffix_def)

lemma genSplit_none: "c \<notin> set a \<Longrightarrow> genSplit a c k = [a]"
  using IndexByte_None_iff [of a c] by (cases k) simp_all

lemma genSplit_cut: "c \<notin> set a \<Longrightarrow> genSplit (a @ c # b) c (Suc k) = a # genSplit b c k"
  by (simp add: IndexByte_first)

lemma Split_none: "c \<notin> set a \<Longrightarrow> Split a c = [a]"
  by (simp add: Split_def genSplit_none)

lemma Split_cut: "c \<notin> set a \<Longrightarrow> Split (a @ c # b) c = a # Split b c"
  using genSplit_cut [of c a b "count_list b c"] by (simp add: Split_def Count_def)

lemma SplitN2_none: "c \<notin> set l \<Longrightarrow> SplitN l c 2 = [l]"
  by (simp add: SplitN_def genSplit_none)

lemma SplitN2_cut: "c \<notin> set a \<Longrightarrow> SplitN (a @ c # b) c 2 = [a, b]"
  using genSplit_cut [of c a b 0] by (simp add: SplitN_def)

lemma SplitN2_first:
  "c \<in> set l \<Longrightarrow> SplitN l c 2 = [takeWhile (\<lambda>x. x \<noteq> c) l, tl (dropWhile (\<lambda>x. x \<noteq> c) l)]"
proof -
  assume "c \<in> set l"
  then obtain a b where l: "l = a @ c # b" and a: "c \<notin> set a"
    by (auto dest: split_list_first)
  from a have "takeWhile (\<lambda>x. x \<noteq> c) (a @ c # b) = a"
    by (induction a) auto
  moreover from a have "dropWhile (\<lambda>x. x \<noteq> c) (a @ c # b) = c # b"
    by (induction a) auto
  ultimately show ?thesis using a by (simp add: l SplitN2_cut)
qed

lemma visible_not_space: "visible c \<Longrightarrow> \<not> asciiSpace c"
  by (auto simp: visible_def asciiSpace_def)

lemma unicodeSpaces_first: "e \<in> set unicodeSpaces \<Longrightarrow> e \<noteq> [] \<and> 128 \<le> (of_char (hd e) :: nat)"
proof -
  have "list_all (\<lambda>e. e \<noteq> [] \<and> 128 \<le> (of_char (hd e) :: nat)) unicodeSpaces"
    by (simp add: unicodeSpaces_def)
  then show "e \<in> set unicodeSpaces \<Longrightarrow> e \<noteq> [] \<and> 128 \<le> (of_char (hd e) :: nat)"
    by (simp add: list_all_iff)
qed

lemma unicodeSpaces_last: "e \<in> set unicodeSpaces \<Longrightarrow> e \<noteq> [] \<and> 128 \<le> (of_char (last e) :: nat)"
proof -
  have "list_all (\<lambda>e. e \<noteq> [] \<and> 128 \<le> (of_char (last e) :: nat)) unicodeSpaces"
    by (simp add: unicodeSpaces_def)
  then show "e \<in> set unicodeSpaces \<Longrightarrow> e \<noteq> [] \<and> 128 \<le> (of_char (last e) :: nat)"
    by (simp add: list_all_iff)
qed

lemma leadingSpace_ascii:
  assumes "(of_char c :: nat) < 128"
  shows "leadingSpace (c # cs) = (if asciiSpace c then 1 else 0)"
proof -
  have "\<not> prefix e (c # cs)" if "e \<in> set unicodeSpaces" for e
  proof
    assume p: "prefix e (c # cs)"
    from unicodeSpaces_first [OF that] obtain x xs where e: "e = x # xs" and x: "128 \<le> (of_char x :: nat)"
      by (cases e) auto
    from p e have "x = c" by simp
    with x assms show False by simp
  qed
  then have "find (\<lambda>e. prefix e (c # cs)) unicodeSpaces = None"
    by (simp add: find_None_iff)
  then show ?thesis by (simp add: leadingSpace_def)
qed

lemma trailingSpace_ascii:
  assumes "(of_char c :: nat) < 128"
  shows "trailingSpace (cs @ [c]) = (if asciiSpace c then 1 else 0)"
proof -
  have "\<not> suffix e (cs @ [c])" if "e \<in> set unicodeSpaces" for e
  proof
    assume p: "suffix e (cs @ [c])"
    from unicodeSpaces_last [OF that] obtain x xs where e: "e = xs @ [x]" and x: "128 \<le> (of_char x :: nat)"
      by (cases e rule: rev_cases) auto
    from p e have "x = c" by simp
    with x assms show False by simp
  qed
  then have "find (\<lambda>e. suffix e (cs @ [c])) unicodeSpaces = None"
    by (simp add: find_None_iff)
  then show ?thesis by (simp add: trailingSpace_def)
qed

lemma leadingSpace_visible: "visible c \<Longrightarrow> leadingSpace (c # cs) = 0"
  using leadingSpace_ascii [of c cs] visible_not_space [of c] by (simp add: visible_def)

lemma trailingSpace_visible: "visible c \<Longrightarrow> trailingSpace (cs @ [c]) = 0"
  using trailingSpace_ascii [of c cs] visible_not_space [of c] by (simp add: visible_def)

lemma TrimSpace_id: "leadingSpace s = 0 \<Longrightarrow> trailingSpace s = 0 \<Longrightarrow> TrimSpace s = s"
  by (simp add: TrimSpace_def trimLeft.simps trimRight.simps)

lemma TrimSpace_Nil: "TrimSpace [] = []"
  by (simp add: TrimSpace_id leadingSpace_def trailingSpace_def)

lemma TrimSpace_visible_ends:
  assumes "s \<noteq> []" "visible (hd s)" "visible (last s)"
  shows "TrimSpace s = s"
proof -
  from assms(1) obtain c cs where s1: "s = c # cs" by (cases s) auto
  from assms(1) obtain d ds where s2: "s = ds @ [d]" by (cases s rule: rev_cases) auto
  from assms s1 have "leadingSpace s = 0" by (simp add: leadingSpace_visible)
  moreover from assms s2 have "trailingSpace s = 0" by (simp add: trailingSpace_visible)
  ultimately show ?thesis by (rule TrimSpace_id)
qed

lemma TrimSpace_SP: "TrimSpace (SP # s) = TrimSpace s"
proof -
  have "leadingSpace (SP # s) = 1" by (simp add: leadingSpace_def asciiSpace_def)
  then have "trimLeft (SP # s) = trimLeft s" by (subst trimLeft.simps) simp
  then show ?thesis by (simp add: TrimSpace_def)
qed

section \<open>The header loop\<close>

lemma isLine_iff: "isLine l \<longleftrightarrow> (\<exists>b. l = b @ [LF] \<and> LF \<notin> set b)"
proof
  assume "isLine l"
  then have "l = butlast l @ [LF] \<and> LF \<notin> set (butlast l)"
    using append_butlast_last_id [of l] by (simp add: isLine_def)
  then show "\<exists>b. l = b @ [LF] \<and> LF \<notin> set b" by blast
next
  assume "\<exists>b. l = b @ [LF] \<and> LF \<notin> set b"
  then show "isLine l" by (auto simp: isLine_def)
qed

lemma TrimSuffix_CRLF_empty: "l \<noteq> [] \<Longrightarrow> TrimSuffix l CRLF = [] \<longleftrightarrow> l = CRLF"
  by (auto simp: TrimSuffix_def suffix_def)

lemma readHeaders_line:
  assumes "isLine l" and "l \<noteq> CRLF"
  shows "readHeaders (Reader (l @ rest) e) hs = readHeaders (Reader rest e) (specStoreHeader l hs)"
proof -
  from assms(1) obtain b where l: "l = b @ [LF]" and b: "LF \<notin> set b"
    by (auto simp: isLine_iff)
  from b have rd: "ReadString (Reader (l @ rest) e) LF = ((l, None), Reader rest e)"
    using ReadString_line [of LF b rest e] by (simp add: l)
  from l assms(2) have ne: "TrimSuffix l CRLF \<noteq> []"
    by (simp add: TrimSuffix_CRLF_empty)
  show ?thesis
  proof (cases "CHR '':'' \<in> set (TrimSuffix l CRLF)")
    case True
    with rd ne show ?thesis
      by (subst readHeaders.simps)
        (simp add: SplitN2_first specStoreHeader_def specHeaderFields_def)
  next
    case False
    with rd ne show ?thesis
      by (subst readHeaders.simps)
        (simp add: SplitN2_none specStoreHeader_def specHeaderFields_def)
  qed
qed

lemma readHeaders_blank: "readHeaders (Reader (CRLF @ rest) e) hs = Inr (hs, Reader rest e)"
proof -
  have "ReadString (Reader (CRLF @ rest) e) LF = ((CRLF, None), Reader rest e)"
    using ReadString_line [of LF "[CR]" rest e] by simp
  moreover have "TrimSuffix CRLF CRLF = []"
    using TrimSuffix_append [of "[]" CRLF] by simp
  ultimately show ?thesis by (subst readHeaders.simps) simp
qed

lemma readHeaders_end:
  assumes "LF \<notin> set t"
  shows "readHeaders (Reader t e) hs =
    (if e = EOF then Inr (hs, Reader [] e) else Inl (HeaderReadError e))"
  using ReadString_end [OF assms, of e] by (subst readHeaders.simps) simp

lemma readHeaders_lines:
  assumes "\<forall>l\<in>set ls. isLine l \<and> l \<noteq> CRLF"
  shows "readHeaders (Reader (concat ls @ rest) e) hs =
    readHeaders (Reader rest e) (fold specStoreHeader ls hs)"
  using assms
proof (induction ls arbitrary: hs)
  case Nil
  then show ?case by simp
next
  case (Cons l ls)
  then have "readHeaders (Reader (l @ concat ls @ rest) e) hs =
      readHeaders (Reader (concat ls @ rest) e) (specStoreHeader l hs)"
    by (simp add: readHeaders_line)
  with Cons show ?case by simp
qed

lemma specStoreHeader_colon:
  assumes "CHR '':'' \<notin> set n"
  shows "specStoreHeader (n @ CHR '':'' # v @ CRLF) hs = hs(TrimSpace n \<mapsto> TrimSpace v)"
proof -
  have "TrimSuffix (n @ CHR '':'' # v @ CRLF) CRLF = n @ CHR '':'' # v"
    using TrimSuffix_append [of "n @ CHR '':'' # v" CRLF] by simp
  moreover from assms have "takeWhile (\<lambda>c. c \<noteq> CHR '':'') (n @ CHR '':'' # v) = n"
    by (induction n) auto
  moreover from assms have "dropWhile (\<lambda>c. c \<noteq> CHR '':'') (n @ CHR '':'' # v) = CHR '':'' # v"
    by (induction n) auto
  ultimately show ?thesis by (simp add: specStoreHeader_def specHeaderFields_def)
qed

lemma specStoreHeader_other:
  assumes "map_option fst (specHeaderFields (TrimSuffix l CRLF)) \<noteq> Some k"
  shows "specStoreHeader l m k = m k"
  using assms by (auto simp: specStoreHeader_def split: option.splits)

lemma fold_specStoreHeader_other:
  assumes "\<forall>l\<in>set ls. map_option fst (specHeaderFields (TrimSuffix l CRLF)) \<noteq> Some k"
  shows "fold specStoreHeader ls m k = m k"
  using assms by (induction ls arbitrary: m) (simp_all add: specStoreHeader_other)

lemma specStoreHeader_no_colon:
  assumes "CHR '':'' \<notin> set l"
  shows "specStoreHeader (l @ CRLF) hs = hs"
proof -
  have "TrimSuffix (l @ CRLF) CRLF = l" by (rule TrimSuffix_append)
  with assms show ?thesis by (simp add: specStoreHeader_def specHeaderFields_def)
qed

text \<open>
  Claim C9. In the loop of \<^verbatim>\<open>NewRequest\<close>, every complete line \<open>l\<close> read before the end of
  the headers is handled as \<open>specStoreHeader l\<close> says: without its \<^verbatim>\<open>CRLF\<close> it is split
  at its first colon only, name and value are stored trimmed of the white space around
  them, and a line without a colon changes nothing and is no error. The loop stops at
  the empty line (\<^verbatim>\<open>CRLF\<close> alone), leaving the bytes after it unread, or where the
  stream ends: a clean end of stream, also after an unfinished line \<open>t\<close>, ends the
  headers like the empty line and is no error.
\<close>

theorem C9_header_lines:
  assumes "\<forall>l\<in>set ls. isLine l \<and> l \<noteq> CRLF"
  shows "readHeaders (Reader (concat ls @ CRLF @ rest) e) hs =
      Inr (fold specStoreHeader ls hs, Reader rest e)
    \<and> (LF \<notin> set t \<longrightarrow>
        readHeaders (Reader (concat ls @ t) EOF) hs =
          Inr (fold specStoreHeader ls hs, Reader [] EOF))"
  using readHeaders_lines [OF assms, of "CRLF @ rest" e hs] readHeaders_lines [OF assms, of t EOF hs]
    readHeaders_blank [of rest e] readHeaders_end [of t EOF]
  by simp

theorem C9_witness:
  "readHeaders (Reader (''Host: a:b '' @ CRLF @ ''junk'' @ CRLF @ CRLF @ ''rest'') ConnError) Map.empty =
      Inr ([''Host'' \<mapsto> ''a:b''], Reader ''rest'' ConnError)
   \<and> readHeaders (Reader (''Host: a:b '' @ CRLF @ ''junk'' @ CRLF @ ''par'') EOF) Map.empty =
      Inr ([''Host'' \<mapsto> ''a:b''], Reader [] EOF)"
proof -
  let ?ls = "[''Host: a:b '' @ CRLF, ''junk'' @ CRLF]"
  have ls: "\<forall>l\<in>set ?ls. isLine l \<and> l \<noteq> CRLF"
    by (simp add: isLine_def)
  have "TrimSpace ''Host'' = ''Host''" "TrimSpace '' a:b '' = ''a:b''"
    by code_simp+
  then have "specStoreHeader (''Host'' @ CHR '':'' # '' a:b '' @ CRLF) Map.empty = [''Host'' \<mapsto> ''a:b'']"
    by (subst specStoreHeader_colon) simp_all
  moreover have "specStoreHeader (''junk'' @ CRLF) m = m" for m
    by (rule specStoreHeader_no_colon) simp
  ultimately have "fold specStoreHeader ?ls Map.empty = [''Host'' \<mapsto> ''a:b'']"
    by simp
  then show ?thesis
    using C9_header_lines [OF ls, of "''rest''" ConnError Map.empty "''par''"]
    by simp
qed

section \<open>The request line\<close>

lemma NewRequest_one_element:
  assumes "LF \<notin> set l" and "SP \<notin> set (TrimSpace (TrimSuffix (l @ [LF]) CRLF))"
  shows "NewRequest (Reader (l @ LF # rest) e) = Inl (Panic (IndexOutOfRange 1 1))"
  using assms by (simp add: NewRequest_def ReadString_line Split_none)

text \<open>
  Claim C5. There are streams on which the parser indexes out of range: \<^verbatim>\<open>NewRequest\<close>
  reads \<^verbatim>\<open>sliceOfLine[1]\<close> without looking at the length of the slice, so every first
  line that, once trimmed, holds no space (\<^verbatim>\<open>Split\<close> then returns one element) ends in
  the run-time panic "index out of range [1] with length 1", whatever follows the line
  in the stream. No error is returned. The line \<^verbatim>\<open>GET\<close> and the empty line are such
  lines.
\<close>

theorem C5_request_line_index_out_of_range:
  assumes "LF \<notin> set l" and "SP \<notin> set (TrimSpace (TrimSuffix (l @ [LF]) CRLF))"
  shows "NewRequest (Reader (l @ LF # rest) e) = Inl (Panic (IndexOutOfRange 1 1))
    \<and> (\<forall>err. NewRequest (Reader (l @ LF # rest) e) \<noteq> Inl (Error (MalformedRequestLine err)))"
  using NewRequest_one_element [OF assms] by simp

theorem C5_witness:
  "NewRequest (Reader (''GET'' @ CRLF) EOF) = Inl (Panic (IndexOutOfRange 1 1))
   \<and> NewRequest (Reader CRLF EOF) = Inl (Panic (IndexOutOfRange 1 1))"
proof -
  have t: "TrimSuffix (''GET'' @ CRLF) CRLF = ''GET''" "TrimSuffix ([] @ CRLF) CRLF = []"
    by (rule TrimSuffix_append)+
  have "TrimSpace ''GET'' = ''GET''"
    by (rule TrimSpace_visible_ends) (simp_all add: visible_def)
  with t have "SP \<notin> set (TrimSpace (TrimSuffix (''GET'' @ [CR] @ [LF]) CRLF))"
    and "SP \<notin> set (TrimSpace (TrimSuffix ([CR] @ [LF]) CRLF))"
    by (simp_all add: TrimSpace_Nil)
  then show ?thesis
    using C5_request_line_index_out_of_range [of "''GET'' @ [CR]" "[]" EOF]
      C5_request_line_index_out_of_range [of "[CR]" "[]" EOF]
    by simp
qed

section \<open>The body\<close>

lemma NewRequest_first_line:
  assumes "isLine first" and "Split (TrimSpace (TrimSuffix first CRLF)) SP = method # uri # others"
  shows "NewRequest (Reader (first @ s) e) =
    (case readHeaders (Reader s e) Map.empty of
       Inl err \<Rightarrow> Inl (Error err)
     | Inr (headers, reader') \<Rightarrow>
         (case headers ''Content-Length'' of
            None \<Rightarrow> Inr \<lparr>Method = method, URI = uri, Headers = headers, Body = []\<rparr>
          | Some contentLength \<Rightarrow>
              (case Atoi contentLength of
                 Inl err \<Rightarrow> Inl (Error (InvalidContentLength err))
               | Inr len \<Rightarrow>
                   if len < 0 \<or> maxAlloc < len then Inl (Panic MakesliceLenOutOfRange)
                   else (case ReadFull reader' (nat len) of
                           Inl err \<Rightarrow> Inl (Error (TruncatedBody err))
                         | Inr (body, reader'') \<Rightarrow>
                             Inr \<lparr>Method = method, URI = uri, Headers = headers, Body = body\<rparr>))))"
proof -
  from assms(1) obtain b where "first = b @ [LF]" and "LF \<notin> set b"
    by (auto simp: isLine_iff)
  then have "ReadString (Reader (first @ s) e) LF = ((first, None), Reader s e)"
    using ReadString_line [of LF b s e] by simp
  with assms(2) show ?thesis
    by (simp add: NewRequest_def Let_def split: sum.split option.split prod.split)
qed

text \<open>
  Claim C8. When no line of the header block is a header named \<^verbatim>\<open>Content-Length\<close>, the
  parser returns the request with an empty body, whatever bytes \<open>rest\<close> follow the
  header block in the stream (and also when the stream ends cleanly inside the header
  block). The request line \<open>first\<close> has its method and URI, as the parser needs to reach
  the body at all.
\<close>

theorem C8_no_content_length_empty_body:
  assumes "isLine first" and "Split (TrimSpace (TrimSuffix first CRLF)) SP = method # uri # others"
    and "\<forall>l\<in>set ls. isLine l \<and> l \<noteq> CRLF
           \<and> map_option fst (specHeaderFields (TrimSuffix l CRLF)) \<noteq> Some ''Content-Length''"
  shows "NewRequest (Reader (first @ concat ls @ CRLF @ rest) e) =
      Inr \<lparr>Method = method, URI = uri, Headers = fold specStoreHeader ls Map.empty, Body = []\<rparr>
    \<and> (LF \<notin> set t \<longrightarrow>
        NewRequest (Reader (first @ concat ls @ t) EOF) =
          Inr \<lparr>Method = method, URI = uri, Headers = fold specStoreHeader ls Map.empty, Body = []\<rparr>)"
proof -
  from assms(3) have ls: "\<forall>l\<in>set ls. isLine l \<and> l \<noteq> CRLF"
    and "\<forall>l\<in>set ls. map_option fst (specHeaderFields (TrimSuffix l CRLF)) \<noteq> Some ''Content-Length''"
    by simp_all
  then have none: "fold specStoreHeader ls Map.empty ''Content-Length'' = None"
    by (simp add: fold_specStoreHeader_other)
  have "readHeaders (Reader (concat ls @ CRLF @ rest) e) Map.empty =
      Inr (fold specStoreHeader ls Map.empty, Reader rest e)"
    using readHeaders_lines [OF ls, of "CRLF @ rest" e Map.empty] readHeaders_blank [of rest e]
    by simp
  moreover have "readHeaders (Reader (concat ls @ t) EOF) Map.empty =
      Inr (fold specStoreHeader ls Map.empty, Reader [] EOF)" if "LF \<notin> set t"
    using readHeaders_lines [OF ls, of t EOF Map.empty] readHeaders_end [OF that, of EOF]
    by simp
  ultimately show ?thesis
    using none by (simp add: NewRequest_first_line [OF assms(1,2)])
qed

theorem C8_witness:
  "NewRequest (Reader (''POST /x HTTP/1.1'' @ CRLF @ ''content-length: 4'' @ CRLF @ CRLF @ ''abcd'') EOF) =
      Inr \<lparr>Method = ''POST'', URI = ''/x'', Headers = [''content-length'' \<mapsto> ''4''], Body = []\<rparr>
   \<and> NewRequest (Reader (''POST /x HTTP/1.1'' @ CRLF @ ''content-length: 4'' @ CRLF @ ''Con'') EOF) =
      Inr \<lparr>Method = ''POST'', URI = ''/x'', Headers = [''content-length'' \<mapsto> ''4''], Body = []\<rparr>"
proof -
  let ?first = "''POST /x HTTP/1.1'' @ CRLF"
  let ?ls = "[''content-length: 4'' @ CRLF]"
  have first: "isLine ?first" by (simp add: isLine_def)
  have split: "Split (TrimSpace (TrimSuffix ?first CRLF)) SP = ''POST'' # ''/x'' # [''HTTP/1.1'']"
    by code_simp
  have "map_option fst (specHeaderFields (TrimSuffix (''content-length: 4'' @ CRLF) CRLF))
      \<noteq> Some ''Content-Length''"
    by code_simp
  then have ls: "\<forall>l\<in>set ?ls. isLine l \<and> l \<noteq> CRLF
      \<and> map_option fst (specHeaderFields (TrimSuffix l CRLF)) \<noteq> Some ''Content-Length''"
    by (simp add: isLine_def)
  have "TrimSpace ''content-length'' = ''content-length''" "TrimSpace '' 4'' = ''4''"
    by code_simp+
  then have "specStoreHeader (''content-length'' @ CHR '':'' # '' 4'' @ CRLF) Map.empty =
      [''content-length'' \<mapsto> ''4'']"
    by (subst specStoreHeader_colon) simp_all
  then have "fold specStoreHeader ?ls Map.empty = [''content-length'' \<mapsto> ''4'']"
    by simp
  then show ?thesis
    using C8_no_content_length_empty_body [OF first split ls, of "''abcd''" EOF "''Con''"]
    by simp
qed

section \<open>A well-formed request\<close>

lemma validToken_facts:
  assumes "validToken s"
  shows "s \<noteq> []" and "visible (hd s)" and "visible (last s)" and "SP \<notin> set s" and "LF \<notin> set s"
proof -
  from assms show ne: "s \<noteq> []" by (simp add: validToken_def)
  from assms have v: "c \<in> set s \<Longrightarrow> visible c" for c
    by (simp add: validToken_def list_all_iff)
  from ne v show "visible (hd s)" and "visible (last s)" by simp_all
  from v [of SP] show "SP \<notin> set s" by (auto simp: visible_def)
  from v [of LF] show "LF \<notin> set s" by (auto simp: visible_def)
qed

lemma Split_request_line:
  assumes "validToken m" and "validToken u"
  shows "Split (TrimSpace (TrimSuffix (requestLine m u) CRLF)) SP = m # u # [''HTTP/1.1'']"
proof -
  let ?l = "m @ SP # u @ '' HTTP/1.1''"
  have "TrimSuffix (requestLine m u) CRLF = ?l"
    using TrimSuffix_append [of ?l CRLF] by (simp add: requestLine_def)
  moreover have "TrimSpace ?l = ?l"
  proof (rule TrimSpace_visible_ends)
    show "?l \<noteq> []" by simp
    from validToken_facts(1,2) [OF assms(1)] show "visible (hd ?l)" by simp
    show "visible (last ?l)" by (simp add: visible_def)
  qed
  moreover have "Split ?l SP = m # u # [''HTTP/1.1'']"
    using validToken_facts(4) [OF assms(1)] validToken_facts(4) [OF assms(2)]
      Split_cut [of SP m "u @ '' HTTP/1.1''"] Split_cut [of SP u "''HTTP/1.1''"]
      Split_none [of SP "''HTTP/1.1''"]
    by simp
  ultimately show ?thesis by simp
qed

lemma isLine_requestLine:
  assumes "validToken m" and "validToken u"
  shows "isLine (requestLine m u)"
proof -
  have "requestLine m u = (m @ SP # u @ '' HTTP/1.1'' @ [CR]) @ [LF]"
    by (simp add: requestLine_def)
  moreover have "LF \<notin> set (m @ SP # u @ '' HTTP/1.1'' @ [CR])"
    using validToken_facts(5) [OF assms(1)] validToken_facts(5) [OF assms(2)] by simp
  ultimately show ?thesis unfolding isLine_iff by blast
qed

lemma validHeaderName_facts:
  assumes "validHeaderName n"
  shows "n \<noteq> []" and "TrimSpace n = n" and "CHR '':'' \<notin> set n" and "LF \<notin> set n"
proof -
  from assms show ne: "n \<noteq> []" by (simp add: validHeaderName_def)
  from assms have v: "c \<in> set n \<Longrightarrow> visible c \<and> c \<noteq> CHR '':''" for c
    by (simp add: validHeaderName_def list_all_iff)
  from ne v have "visible (hd n)" and "visible (last n)" by simp_all
  with ne show "TrimSpace n = n" by (rule TrimSpace_visible_ends)
  from v [of "CHR '':''"] show "CHR '':'' \<notin> set n" by auto
  from v [of LF] show "LF \<notin> set n" by (auto simp: visible_def)
qed

lemma validHeaderValue_facts:
  assumes "validHeaderValue v"
  shows "TrimSpace v = v" and "LF \<notin> set v"
proof -
  from assms have "v = [] \<or> v \<noteq> [] \<and> visible (hd v) \<and> visible (last v)"
    by (auto simp: validHeaderValue_def)
  then show "TrimSpace v = v"
    by (auto simp: TrimSpace_Nil TrimSpace_visible_ends)
  from assms have "c \<in> set v \<Longrightarrow> visible c \<or> c = SP \<or> c = HT" for c
    by (simp add: validHeaderValue_def list_all_iff)
  from this [of LF] show "LF \<notin> set v" by (auto simp: visible_def)
qed

lemma headerLine_facts:
  assumes "validHeaderName (fst h)" and "validHeaderValue (snd h)"
  shows "isLine (headerLine h)" and "headerLine h \<noteq> CRLF"
    and "specStoreHeader (headerLine h) m = m(fst h \<mapsto> snd h)"
proof -
  note n = validHeaderName_facts [OF assms(1)]
  note v = validHeaderValue_facts [OF assms(2)]
  have "headerLine h = (fst h @ '': '' @ snd h @ [CR]) @ [LF]"
    by (simp add: headerLine_def)
  moreover from n(4) v(2) have "LF \<notin> set (fst h @ '': '' @ snd h @ [CR])" by simp
  ultimately show "isLine (headerLine h)" unfolding isLine_iff by blast
  from n(1) show "headerLine h \<noteq> CRLF" by (cases "fst h") (simp_all add: headerLine_def)
  have "specStoreHeader (fst h @ CHR '':'' # (SP # snd h) @ CRLF) m =
      m(TrimSpace (fst h) \<mapsto> TrimSpace (SP # snd h))"
    using n(3) by (rule specStoreHeader_colon)
  then show "specStoreHeader (headerLine h) m = m(fst h \<mapsto> snd h)"
    by (simp add: headerLine_def TrimSpace_SP n(2) v(1))
qed

lemma fold_specStoreHeader_headerLines:
  assumes "\<forall>h\<in>set hs. validHeaderName (fst h) \<and> validHeaderValue (snd h)"
  shows "fold specStoreHeader (map headerLine hs) m = m ++ map_of (rev hs)"
  using assms
proof (induction hs arbitrary: m)
  case Nil
  then show ?case by simp
next
  case (Cons h hs)
  have "m(fst h \<mapsto> snd h) ++ map_of (rev hs) = m ++ (map_of [h] ++ map_of (rev hs))"
    by (cases h) simp
  with Cons show ?case by (simp add: headerLine_facts(3) map_of_append)
qed

lemma ReadFull_exact: "ReadFull (Reader body e) (length body) = Inr (body, Reader [] e)"
  by (simp add: ReadFull_def)

lemma readHeaders_request:
  assumes "\<forall>h\<in>set hs. validHeaderName (fst h) \<and> validHeaderValue (snd h)"
  shows "readHeaders (Reader (concat (map headerLine hs) @ CRLF @ rest) e) Map.empty =
    Inr (map_of (rev hs), Reader rest e)"
proof -
  from assms have "\<forall>l\<in>set (map headerLine hs). isLine l \<and> l \<noteq> CRLF"
    by (auto simp: headerLine_facts(1,2))
  then have "readHeaders (Reader (concat (map headerLine hs) @ CRLF @ rest) e) Map.empty =
      readHeaders (Reader (CRLF @ rest) e) (fold specStoreHeader (map headerLine hs) Map.empty)"
    by (rule readHeaders_lines)
  then show ?thesis
    by (simp only: readHeaders_blank fold_specStoreHeader_headerLines [OF assms] empty_map_add)
qed

text \<open>
  Claim C1. On the bytes of a valid request line \<^verbatim>\<open>METHOD URI HTTP/1.1\<close>, any number of
  valid header lines \<^verbatim>\<open>Name: value\<close>, the empty line and a body of exactly the declared
  length, the parser succeeds: the request has that method and that URI, its headers
  map every name, as it was received, to the value of its last occurrence and nothing
  else, and its body is the body. The stream may end in any way after the body. The
  body is a byte sequence that a Go string can be: at most \<open>maxAlloc\<close> bytes long.
\<close>

theorem C1_valid_request_parsed:
  assumes "validToken m" and "validToken u"
    and "\<forall>h\<in>set hs. validHeaderName (fst h) \<and> validHeaderValue (snd h)"
    and "bodyAsDeclared hs body" and "int (length body) \<le> maxAlloc"
  shows "NewRequest (Reader (requestBytes m u hs body) e) =
    Inr \<lparr>Method = m, URI = u, Headers = map_of (rev hs), Body = body\<rparr>"
proof -
  have bytes: "requestBytes m u hs body = requestLine m u @ (concat (map headerLine hs) @ CRLF @ body)"
    by (simp add: requestBytes_def)
  note first = NewRequest_first_line [OF isLine_requestLine [OF assms(1,2)] Split_request_line [OF assms(1,2)]]
  note hdrs = readHeaders_request [OF assms(3), of body e]
  show ?thesis
  proof (cases "map_of (rev hs) ''Content-Length''")
    case None
    with assms(4) have "body = []" by (simp add: bodyAsDeclared_def)
    with None hdrs show ?thesis unfolding bytes first by simp
  next
    case (Some v)
    with assms(4) have "Atoi v = Inr (int (length body))" by (simp add: bodyAsDeclared_def)
    with Some hdrs assms(5) show ?thesis unfolding bytes first by (simp add: ReadFull_exact)
  qed
qed

theorem C1_witness:
  "NewRequest (Reader (''POST / HTTP/1.1'' @ CRLF @ ''Host: x'' @ CRLF @ ''Content-Length: 3'' @ CRLF
       @ ''Host: y'' @ CRLF @ CRLF @ ''abc'') EOF) =
     Inr \<lparr>Method = ''POST'', URI = ''/'',
          Headers = [''Host'' \<mapsto> ''x'', ''Content-Length'' \<mapsto> ''3'', ''Host'' \<mapsto> ''y''],
          Body = ''abc''\<rparr>"
proof -
  let ?hs = "[(''Host'', ''x''), (''Content-Length'', ''3''), (''Host'', ''y'')]"
  have m: "validToken ''POST''" and u: "validToken ''/''"
    by (simp_all add: validToken_def visible_def)
  have "validHeaderName ''Host''" and "validHeaderName ''Content-Length''"
    by (simp_all add: validHeaderName_def visible_def)
  moreover have "validHeaderValue ''x''" and "validHeaderValue ''3''" and "validHeaderValue ''y''"
    by (simp_all add: validHeaderValue_def visible_def)
  ultimately have hs: "\<forall>h\<in>set ?hs. validHeaderName (fst h) \<and> validHeaderValue (snd h)"
    by simp
  have r: "rev ?hs = [(''Host'', ''y''), (''Content-Length'', ''3''), (''Host'', ''x'')]"
    by simp
  have hm: "map_of (rev ?hs) = [''Host'' \<mapsto> ''x'', ''Content-Length'' \<mapsto> ''3'', ''Host'' \<mapsto> ''y'']"
    unfolding r by simp
  have cl: "map_of (rev ?hs) ''Content-Length'' = Some ''3''"
    unfolding r by simp
  have len: "int (length ''abc'') = 3"
    by simp
  have "Atoi ''3'' = Inr 3"
    by (simp add: Atoi_def isDigit_def digitVal_def maxUint64_def intSize_def)
  then have b: "bodyAsDeclared ?hs ''abc''"
    unfolding bodyAsDeclared_def cl len by simp
  have a: "int (length ''abc'') \<le> maxAlloc"
    unfolding len maxAlloc_def by simp
  have bytes: "requestBytes ''POST'' ''/'' ?hs ''abc'' =
      ''POST / HTTP/1.1'' @ CRLF @ ''Host: x'' @ CRLF @ ''Content-Length: 3'' @ CRLF
       @ ''Host: y'' @ CRLF @ CRLF @ ''abc''"
    by (simp add: requestBytes_def requestLine_def headerLine_def)
  show ?thesis
    using C1_valid_request_parsed [OF m u hs b a, of EOF]
    unfolding bytes hm .
qed

section \<open>The declared length of the body\<close>

lemma NewRequest_with_headers:
  assumes "isLine first" and "Split (TrimSpace (TrimSuffix first CRLF)) SP = method # uri # others"
    and "\<forall>l\<in>set ls. isLine l \<and> l \<noteq> CRLF"
  shows "NewRequest (Reader (first @ concat ls @ CRLF @ rest) e) =
    (case fold specStoreHeader ls Map.empty ''Content-Length'' of
       None \<Rightarrow>
         Inr \<lparr>Method = method, URI = uri, Headers = fold specStoreHeader ls Map.empty, Body = []\<rparr>
     | Some contentLength \<Rightarrow>
         (case Atoi contentLength of
            Inl err \<Rightarrow> Inl (Error (InvalidContentLength err))
          | Inr len \<Rightarrow>
              if len < 0 \<or> maxAlloc < len then Inl (Panic MakesliceLenOutOfRange)
              else (case ReadFull (Reader rest e) (nat len) of
                      Inl err \<Rightarrow> Inl (Error (TruncatedBody err))
                    | Inr (body, reader'') \<Rightarrow>
                        Inr \<lparr>Method = method, URI = uri,
                             Headers = fold specStoreHeader ls Map.empty, Body = body\<rparr>)))"
proof -
  have "readHeaders (Reader (concat ls @ CRLF @ rest) e) Map.empty =
      Inr (fold specStoreHeader ls Map.empty, Reader rest e)"
    using readHeaders_lines [OF assms(3), of "CRLF @ rest" e Map.empty] readHeaders_blank [of rest e]
    by simp
  then show ?thesis
    unfolding NewRequest_first_line [OF assms(1,2)] by simp
qed

text \<open>
  What holds of the two claims that follow. A \<^verbatim>\<open>Content-Length\<close> that \<^verbatim>\<open>strconv.Atoi\<close>
  rejects is answered with the error \<open>InvalidContentLength\<close>; a length that \<^verbatim>\<open>make\<close>
  accepts and that the stream cannot fill is answered with \<open>TruncatedBody\<close>, never with
  a request; and a length that \<^verbatim>\<open>Atoi\<close> accepts and \<^verbatim>\<open>make\<close> does not, negative or
  beyond \<open>maxAlloc\<close>, is a panic: the length goes from \<^verbatim>\<open>Atoi\<close> to \<^verbatim>\<open>make\<close> unchecked.
\<close>

lemma NewRequest_invalid_content_length:
  assumes "isLine first" and "Split (TrimSpace (TrimSuffix first CRLF)) SP = method # uri # others"
    and "\<forall>l\<in>set ls. isLine l \<and> l \<noteq> CRLF"
    and "fold specStoreHeader ls Map.empty ''Content-Length'' = Some v" and "Atoi v = Inl err"
  shows "NewRequest (Reader (first @ concat ls @ CRLF @ rest) e) = Inl (Error (InvalidContentLength err))"
  unfolding NewRequest_with_headers [OF assms(1-3)] using assms(4,5) by simp

lemma NewRequest_truncated_body:
  assumes "isLine first" and "Split (TrimSpace (TrimSuffix first CRLF)) SP = method # uri # others"
    and "\<forall>l\<in>set ls. isLine l \<and> l \<noteq> CRLF"
    and "fold specStoreHeader ls Map.empty ''Content-Length'' = Some v" and "Atoi v = Inr len"
    and "int (length rest) < len" and "len \<le> maxAlloc"
  shows "NewRequest (Reader (first @ concat ls @ CRLF @ rest) e) =
    Inl (Error (TruncatedBody (if e = EOF \<and> rest \<noteq> [] then ErrUnexpectedEOF else e)))"
proof -
  from assms(6) have "\<not> nat len \<le> length rest" and "\<not> len < 0" by simp_all
  then show ?thesis
    unfolding NewRequest_with_headers [OF assms(1-3)] using assms(4,5,7)
    by (simp add: ReadFull_def)
qed

lemma NewRequest_makeslice_panic:
  assumes "isLine first" and "Split (TrimSpace (TrimSuffix first CRLF)) SP = method # uri # others"
    and "\<forall>l\<in>set ls. isLine l \<and> l \<noteq> CRLF"
    and "fold specStoreHeader ls Map.empty ''Content-Length'' = Some v" and "Atoi v = Inr len"
    and "len < 0 \<or> maxAlloc < len"
  shows "NewRequest (Reader (first @ concat ls @ CRLF @ rest) e) = Inl (Panic MakesliceLenOutOfRange)"
  unfolding NewRequest_with_headers [OF assms(1-3)] using assms(4-6) by simp

lemma POST_line:
  "isLine (''POST / HTTP/1.1'' @ CRLF)"
  "Split (TrimSpace (TrimSuffix (''POST / HTTP/1.1'' @ CRLF) CRLF)) SP = ''POST'' # ''/'' # [''HTTP/1.1'']"
proof -
  show "isLine (''POST / HTTP/1.1'' @ CRLF)" by (simp add: isLine_def)
  have "validToken ''POST''" and "validToken ''/''"
    by (simp_all add: validToken_def visible_def)
  then show "Split (TrimSpace (TrimSuffix (''POST / HTTP/1.1'' @ CRLF) CRLF)) SP = ''POST'' # ''/'' # [''HTTP/1.1'']"
    using Split_request_line [of "''POST''" "''/''"] by (simp add: requestLine_def)
qed

lemma Content_Length_line:
  assumes "validHeaderValue v"
  shows "\<forall>l\<in>set [''Content-Length: '' @ v @ CRLF]. isLine l \<and> l \<noteq> CRLF"
    and "fold specStoreHeader [''Content-Length: '' @ v @ CRLF] Map.empty ''Content-Length'' = Some v"
proof -
  have n: "validHeaderName ''Content-Length''"
    by (simp add: validHeaderName_def visible_def)
  have h: "headerLine (''Content-Length'', v) = ''Content-Length: '' @ v @ CRLF"
    by (simp add: headerLine_def)
  from headerLine_facts(1,2) [of "(''Content-Length'', v)"] n assms
  show "\<forall>l\<in>set [''Content-Length: '' @ v @ CRLF]. isLine l \<and> l \<noteq> CRLF"
    unfolding h by simp
  from headerLine_facts(3) [of "(''Content-Length'', v)" Map.empty] n assms
  show "fold specStoreHeader [''Content-Length: '' @ v @ CRLF] Map.empty ''Content-Length'' = Some v"
    unfolding h by simp
qed

text \<open>
  Claim C3 fails on the code. A declared length beyond \<open>maxAlloc\<close> is larger than the
  bytes of any stream, and on it \<^verbatim>\<open>make([]byte, length)\<close> panics before a byte of the
  body is read: the request below, with the largest \<^verbatim>\<open>int\<close> as its \<^verbatim>\<open>Content-Length\<close>,
  ends in the panic "makeslice: len out of range" and not in the error
  \<open>TruncatedBody\<close>. (Lemma \<open>NewRequest_truncated_body\<close> is the claim for the lengths that
  \<^verbatim>\<open>make\<close> accepts.)
\<close>

theorem C3_huge_content_length_panics:
  "NewRequest (Reader (''POST / HTTP/1.1'' @ CRLF @ ''Content-Length: 9223372036854775807'' @ CRLF
      @ CRLF @ ''abc'') EOF) = Inl (Panic MakesliceLenOutOfRange)"
proof -
  have v: "validHeaderValue ''9223372036854775807''"
    by (simp add: validHeaderValue_def visible_def)
  have a: "Atoi ''9223372036854775807'' = Inr 9223372036854775807"
    by (simp add: Atoi_def isDigit_def digitVal_def maxUint64_def intSize_def)
  have "(9223372036854775807 :: int) < 0 \<or> maxAlloc < 9223372036854775807"
    by (simp add: maxAlloc_def)
  from NewRequest_makeslice_panic [OF POST_line Content_Length_line [OF v] a this, of "''abc''" EOF]
  show ?thesis by simp
qed

text \<open>
  Claim C4 fails on the code. \<^verbatim>\<open>strconv.Atoi\<close> accepts a sign, so the value \<^verbatim>\<open>-5\<close> is no
  error for it, and \<^verbatim>\<open>make([]byte, -5)\<close> panics ("makeslice: len out of range"): the
  request below ends in that panic and not in the error \<open>InvalidContentLength\<close>.
  (Lemma \<open>NewRequest_invalid_content_length\<close> is the claim for the values that \<^verbatim>\<open>Atoi\<close>
  rejects.)
\<close>

theorem C4_negative_content_length_panics:
  "NewRequest (Reader (''POST / HTTP/1.1'' @ CRLF @ ''Content-Length: -5'' @ CRLF @ CRLF) EOF) =
     Inl (Panic MakesliceLenOutOfRange)"
proof -
  have v: "validHeaderValue ''-5''"
    by (simp add: validHeaderValue_def visible_def)
  have a: "Atoi ''-5'' = Inr (- 5)"
    by (simp add: Atoi_def isDigit_def digitVal_def maxUint64_def intSize_def)
  have "(- 5 :: int) < 0 \<or> maxAlloc < - 5"
    by simp
  from NewRequest_makeslice_panic [OF POST_line Content_Length_line [OF v] a this, of "[]" EOF]
  show ?thesis by simp
qed

section \<open>The response\<close>

lemma digit_cases: "d < 10 \<Longrightarrow> d = 0 \<or> d = 1 \<or> d = 2 \<or> d = 3 \<or> d = 4 \<or> d = 5 \<or> d = 6 \<or> d = 7 \<or> d = 8 \<or> d = (9::nat)"
  by arith

lemma digitChar_facts:
  assumes "d < 10"
  shows "isDigit (digitChar d)" and "digitVal (digitChar d) = d"
    and "digitChar d \<noteq> CHR ''+''" and "digitChar d \<noteq> CHR ''-''"
  using digit_cases [OF assms]
  by (auto simp: digitChar_def isDigit_def digitVal_def)

lemma natDigits_not_Nil: "natDigits n \<noteq> []"
  by (subst natDigits.simps) simp

lemma hd_natDigits: "\<exists>d<10. hd (natDigits n) = digitChar d"
proof (induction n rule: natDigits.induct)
  case (1 n)
  show ?case
  proof (cases "n < 10")
    case True
    then show ?thesis by (subst natDigits.simps) auto
  next
    case False
    with 1 natDigits_not_Nil [of "n div 10"] show ?thesis
      by (subst natDigits.simps) simp
  qed
qed

lemma parseDigits_append:
  "parseDigits a (s @ t) = (case parseDigits a s of Inl e \<Rightarrow> Inl e | Inr v \<Rightarrow> parseDigits v t)"
  by (induction s arbitrary: a) simp_all

lemma parseDigits_natDigits:
  "n \<le> maxUint64 \<Longrightarrow> parseDigits 0 (natDigits n) = Inr n"
proof (induction n rule: natDigits.induct)
  case (1 n)
  show ?case
  proof (cases "n < 10")
    case True
    with 1(2) show ?thesis
      by (subst natDigits.simps) (simp add: digitChar_facts)
  next
    case False
    from 1(2) have "n div 10 \<le> maxUint64" by simp
    with 1(1) False have "parseDigits 0 (natDigits (n div 10)) = Inr (n div 10)" by simp
    moreover have "n mod 10 < 10" by simp
    ultimately show ?thesis
      using False 1(2)
      by (subst natDigits.simps) (simp add: parseDigits_append digitChar_facts)
  qed
qed

lemma Atoi_formatInt:
  assumes "n < 2 ^ 63"
  shows "Atoi (formatInt (int n)) = Inr (int n)"
proof -
  obtain c cs where s: "natDigits n = c # cs"
    using natDigits_not_Nil [of n] by (cases "natDigits n") auto
  from hd_natDigits [of n] s obtain d where "d < 10" and "c = digitChar d" by auto
  then have c: "c \<noteq> CHR ''+''" "c \<noteq> CHR ''-''" by (simp_all add: digitChar_facts)
  from assms have "n \<le> maxUint64" by (simp add: maxUint64_def)
  then have "parseDigits 0 (c # cs) = Inr n"
    using parseDigits_natDigits [of n] s by simp
  with c assms show ?thesis
    by (simp add: Atoi_def formatInt_def s intSize_def del: parseDigits.simps)
qed

lemma NewResponse_bytes:
  "NewResponse status body contentType =
     ''HTTP/1.1 '' @ formatInt status @ '' '' @ StatusText status @ CRLF
     @ ''Content-Type: '' @ contentType @ CRLF
     @ ''Content-Length: '' @ formatInt (int (length body)) @ CRLF
     @ CRLF @ body"
  by (simp add: NewResponse_def)

text \<open>
  Claim C2. For a status code that has a reason phrase, \<^verbatim>\<open>NewResponse\<close> returns exactly
  the status line \<^verbatim>\<open>HTTP/1.1 <status> <reason-phrase>\<close>, the header \<^verbatim>\<open>Content-Type\<close>, the
  header \<^verbatim>\<open>Content-Length\<close>, an empty line and the body as it is, every line ended by
  \<^verbatim>\<open>CRLF\<close>. The digits after \<^verbatim>\<open>Content-Length:\<close> are the decimal numeral of the length
  of the body in bytes: \<^verbatim>\<open>strconv.Atoi\<close> reads that length back from them (for a length
  that fits \<^verbatim>\<open>int\<close>, as the length of every Go string does). In particular
  \<^verbatim>\<open>NewResponse(200, "success", "application/json")\<close> is the byte sequence of the
  specification.
\<close>

theorem C2_NewResponse_bytes:
  assumes "map_of statusText status = Some phrase"
  shows "NewResponse status body contentType =
      ''HTTP/1.1 '' @ formatInt status @ '' '' @ phrase @ CRLF
      @ ''Content-Type: '' @ contentType @ CRLF
      @ ''Content-Length: '' @ formatInt (int (length body)) @ CRLF
      @ CRLF @ body
    \<and> (length body < 2 ^ 63 \<longrightarrow>
        Atoi (formatInt (int (length body))) = Inr (int (length body)))
    \<and> NewResponse 200 ''success'' ''application/json'' =
      ''HTTP/1.1 200 OK'' @ CRLF @ ''Content-Type: application/json'' @ CRLF
      @ ''Content-Length: 7'' @ CRLF @ CRLF @ ''success''"
proof -
  have "map_of statusText 200 = Some ''OK''"
    by (simp add: statusText_def)
  moreover have "formatInt 200 = ''200''" and "formatInt (int (length ''success'')) = ''7''"
    by (simp_all add: formatInt_def natDigits.simps digitChar_def)
  ultimately have "NewResponse 200 ''success'' ''application/json'' =
      ''HTTP/1.1 200 OK'' @ CRLF @ ''Content-Type: application/json'' @ CRLF
      @ ''Content-Length: 7'' @ CRLF @ CRLF @ ''success''"
    unfolding NewResponse_bytes StatusText_def by simp
  with assms show ?thesis
    unfolding NewResponse_bytes StatusText_def by (simp add: Atoi_formatInt)
qed

theorem C2_witness:
  "NewResponse 404 ''gone'' ''text/plain'' =
      ''HTTP/1.1 404 Not Found'' @ CRLF @ ''Content-Type: text/plain'' @ CRLF
      @ ''Content-Length: 4'' @ CRLF @ CRLF @ ''gone''
   \<and> Atoi ''4'' = Inr 4"
proof -
  have s: "map_of statusText 404 = Some ''Not Found''"
    by (simp add: statusText_def)
  have f: "formatInt 404 = ''404''" "formatInt 4 = ''4''"
    by (simp_all add: formatInt_def natDigits.simps digitChar_def)
  have l: "int (length ''gone'') = 4" "length ''gone'' < 2 ^ 63"
    by simp_all
  show ?thesis
    using C2_NewResponse_bytes [OF s, of "''gone''" "''text/plain''"] l(2)
    unfolding l(1) f by simp
qed

text \<open>
  Claim C10. \<^verbatim>\<open>NewResponse\<close> has no failing path: for every integer status code it
  returns the status line, the two headers, the empty line and the body. For a code
  without a reason phrase \<^verbatim>\<open>http.StatusText\<close> gives the empty string, so the status line
  is \<^verbatim>\<open>HTTP/1.1 <status> \<close> with a space before its \<^verbatim>\<open>CRLF\<close>, and the headers and the body
  follow as for any other code.
\<close>

theorem C10_unknown_status_code:
  "NewResponse status data contentType =
      ''HTTP/1.1 '' @ formatInt status @ '' '' @ StatusText status @ CRLF
      @ ''Content-Type: '' @ contentType @ CRLF
      @ ''Content-Length: '' @ formatInt (int (length data)) @ CRLF
      @ CRLF @ data
   \<and> (map_of statusText status = None \<longrightarrow>
        StatusText status = []
        \<and> NewResponse status data contentType =
            ''HTTP/1.1 '' @ formatInt status @ '' '' @ CRLF
            @ ''Content-Type: '' @ contentType @ CRLF
            @ ''Content-Length: '' @ formatInt (int (length data)) @ CRLF
            @ CRLF @ data)"
  unfolding NewResponse_bytes StatusText_def by simp

theorem C10_witness:
  "NewResponse 999 ''x'' ''text/plain'' =
      ''HTTP/1.1 999 '' @ CRLF @ ''Content-Type: text/plain'' @ CRLF
      @ ''Content-Length: 1'' @ CRLF @ CRLF @ ''x''
   \<and> NewResponse (- 1) [] [] =
      ''HTTP/1.1 -1 '' @ CRLF @ ''Content-Type: '' @ CRLF
      @ ''Content-Length: 0'' @ CRLF @ CRLF"
proof -
  have s: "map_of statusText 999 = None" "map_of statusText (- 1) = None"
    by (simp_all add: statusText_def)
  have l: "int (length ''x'') = 1" "int (length ([] :: string)) = 0"
    by simp_all
  have f: "formatInt 999 = ''999''" "formatInt (- 1) = ''-1''"
    "formatInt 1 = ''1''" "formatInt 0 = ''0''"
    by (simp_all add: formatInt_def natDigits.simps digitChar_def)
  from C10_unknown_status_code [of 999 "''x''" "''text/plain''"] s(1)
  have "NewResponse 999 ''x'' ''text/plain'' =
      ''HTTP/1.1 999 '' @ CRLF @ ''Content-Type: text/plain'' @ CRLF
      @ ''Content-Length: 1'' @ CRLF @ CRLF @ ''x''"
    unfolding l f by simp
  moreover from C10_unknown_status_code [of "- 1" "[]" "[]"] s(2)
  have "NewResponse (- 1) [] [] =
      ''HTTP/1.1 -1 '' @ CRLF @ ''Content-Type: '' @ CRLF
      @ ''Content-Length: 0'' @ CRLF @ CRLF"
    unfolding l f by simp
  ultimately show ?thesis by simp
qed

section \<open>The connection\<close>

lemma handleAccept_parse_error:
  assumes "NewRequest conn = Inl (Error err)"
  shows "handleAccept env conn w = Inr (w\<lparr>logged := logged w @ [LogParseError err]\<rparr>)"
  using assms by (simp add: handleAccept_def Println_def)

lemma Mux_no_route:
  assumes "Method req = ''GET'' \<longrightarrow> URI req \<noteq> ''/'' \<and> URI req \<noteq> ''/about''"
    and "Method req = ''POST'' \<longrightarrow> URI req \<noteq> ''/''"
  shows "Mux env req w = w"
  using assms by (cases "Method req = ''GET''") (simp_all add: Mux_def Let_def)

text \<open>
  Claim C6 fails on the code. When the parser returns an error, \<^verbatim>\<open>handleAccept\<close> logs it
  and returns: nothing is written, but the connection is not closed either, although
  the page handlers close it after their response. On the request below, whose
  \<^verbatim>\<open>Content-Length\<close> is no number, the connection is left open.
\<close>

theorem C6_parse_error_leaves_connection_open:
  "handleAccept env
     (Reader (''POST / HTTP/1.1'' @ CRLF @ ''Content-Length: abc'' @ CRLF @ CRLF) EOF)
     \<lparr>written = [], closed = False, logged = []\<rparr> =
   Inr \<lparr>written = [], closed = False,
        logged = [LogParseError (InvalidContentLength ErrSyntax)]\<rparr>"
proof -
  have v: "validHeaderValue ''abc''"
    by (simp add: validHeaderValue_def visible_def)
  have a: "Atoi ''abc'' = Inl ErrSyntax"
    by (simp add: Atoi_def isDigit_def)
  from NewRequest_invalid_content_length [OF POST_line Content_Length_line [OF v] a, of "[]" EOF]
  have "NewRequest (Reader (''POST / HTTP/1.1'' @ CRLF @ ''Content-Length: abc'' @ CRLF @ CRLF) EOF) =
      Inl (Error (InvalidContentLength ErrSyntax))"
    by simp
  then show ?thesis by (simp add: handleAccept_parse_error)
qed

text \<open>
  Claim C7 fails on the code. \<^verbatim>\<open>Mux\<close> has no branch for a request that matches none of
  its three routes: for \<^verbatim>\<open>GET /unknown-path\<close> the connection is left as it was, with no
  byte written (no \<^verbatim>\<open>404\<close> response) and not closed.
\<close>

theorem C7_unrouted_request_gets_no_response:
  "handleAccept env (Reader (''GET /unknown-path HTTP/1.1'' @ CRLF @ CRLF) EOF)
     \<lparr>written = [], closed = False, logged = []\<rparr> =
   Inr \<lparr>written = [], closed = False, logged = []\<rparr>"
proof -
  have m: "validToken ''GET''" and u: "validToken ''/unknown-path''"
    by (simp_all add: validToken_def visible_def)
  have "NewRequest (Reader (requestLine ''GET'' ''/unknown-path'' @ concat [] @ CRLF @ []) EOF) =
      Inr \<lparr>Method = ''GET'', URI = ''/unknown-path'', Headers = Map.empty, Body = []\<rparr>"
    by (subst NewRequest_with_headers [OF isLine_requestLine [OF m u] Split_request_line [OF m u]])
      simp_all
  then have "NewRequest (Reader (''GET /unknown-path HTTP/1.1'' @ CRLF @ CRLF) EOF) =
      Inr \<lparr>Method = ''GET'', URI = ''/unknown-path'', Headers = Map.empty, Body = []\<rparr>"
    by (simp add: requestLine_def)
  then show ?thesis by (simp add: handleAccept_def Mux_no_route)
qed

end
